theory Spec2Isabelle
  imports Main "HOL-Library.Word"
begin

section \<open>JavaScript values and strings\<close>

text \<open>
  A JavaScript string is a sequence of UTF-16 code units; \<open>length\<close>, \<open>charAt\<close>,
  \<open>slice\<close>, \<open>split\<close> and a regular expression without the \<open>u\<close> flag all work on
  code units. The literal helper \<open>js\<close> writes an ASCII literal as such a sequence.
\<close>

type_synonym code_unit = "16 word"
type_synonym jstring = "code_unit list"

definition js :: "string \<Rightarrow> jstring" where
  "js s = map of_char s"

text \<open>
  The converters look at their argument through \<open>typeof\<close> and \<open>=== null\<close>, through
  its code units when it is a string, and (\<open>toCamelCase\<close> only) through a call of its
  \<open>toLowerCase\<close> method. A primitive that is not a string is therefore modelled by its
  runtime type alone. Objects come in three kinds: \<open>JStringObject s\<close> is the String object
  \<open>new String(s)\<close>, whose \<open>typeof\<close> is \<open>'object'\<close> and which inherits the methods of
  strings; \<open>JObject\<close> is an object without a \<open>toLowerCase\<close> method (an object literal,
  an array); \<open>JFunction\<close> is a callable object, also without that method. An object that
  defines a \<open>toLowerCase\<close> method of its own is not modelled.
\<close>

datatype js_value =
    JUndefined | JNull | JBoolean | JNumber | JBigInt | JSymbol | JFunction | JObject
  | JStringObject jstring | JString jstring

fun typeof :: "js_value \<Rightarrow> jstring" where
  "typeof JUndefined = js ''undefined''"
| "typeof JNull = js ''object''"
| "typeof JBoolean = js ''boolean''"
| "typeof JNumber = js ''number''"
| "typeof JBigInt = js ''bigint''"
| "typeof JSymbol = js ''symbol''"
| "typeof JFunction = js ''function''"
| "typeof JObject = js ''object''"
| "typeof (JStringObject s) = js ''object''"
| "typeof (JString s) = js ''string''"

text \<open>
  \<open>TypeError m\<close> is the exception of \<open>throw new TypeError(m)\<close>. \<open>RuntimeTypeError\<close> is the
  TypeError the engine itself raises when a method is called on a value that does not have
  it (\<open>str.toLowerCase()\<close> on a number, on \<open>null\<close>, ...); its message is engine-specific.
\<close>

datatype js_error = TypeError jstring | RuntimeTypeError

subsection \<open>Character classes of the regular expressions\<close>

definition isLower :: "code_unit \<Rightarrow> bool" where  \<comment> \<open>\<open>[a-z]\<close>\<close>
  "isLower c = (0x61 \<le> c \<and> c \<le> 0x7A)"

definition isUpper :: "code_unit \<Rightarrow> bool" where  \<comment> \<open>\<open>[A-Z]\<close>\<close>
  "isUpper c = (0x41 \<le> c \<and> c \<le> 0x5A)"

definition isDigit :: "code_unit \<Rightarrow> bool" where  \<comment> \<open>\<open>[0-9]\<close>\<close>
  "isDigit c = (0x30 \<le> c \<and> c \<le> 0x39)"

definition isLetter :: "code_unit \<Rightarrow> bool" where  \<comment> \<open>\<open>[a-zA-Z]\<close>\<close>
  "isLetter c = (isLower c \<or> isUpper c)"

definition isAlnum :: "code_unit \<Rightarrow> bool" where  \<comment> \<open>\<open>[a-zA-Z0-9]\<close>\<close>
  "isAlnum c = (isLower c \<or> isUpper c \<or> isDigit c)"

definition isLineTerminator :: "code_unit \<Rightarrow> bool" where
  \<comment> \<open>LF, CR, LINE SEPARATOR, PARAGRAPH SEPARATOR: what \<open>.\<close> does not match\<close>
  "isLineTerminator c = (c = 0xA \<or> c = 0xD \<or> c = 0x2028 \<or> c = 0x2029)"

definition isSpace :: "code_unit \<Rightarrow> bool" where
  \<comment> \<open>\<open>\s\<close>, and what \<open>trim\<close> removes: WhiteSpace (TAB, VT, FF, ZWNBSP and the
      space separators of Unicode) and LineTerminator\<close>
  "isSpace c =
     (c = 0x9 \<or> c = 0xB \<or> c = 0xC \<or> c = 0xFEFF
      \<or> c = 0x20 \<or> c = 0xA0 \<or> c = 0x1680 \<or> (0x2000 \<le> c \<and> c \<le> 0x200A)
      \<or> c = 0x202F \<or> c = 0x205F \<or> c = 0x3000
      \<or> isLineTerminator c)"

definition isSep :: "code_unit \<Rightarrow> bool" where  \<comment> \<open>\<open>[-_\s]\<close>\<close>
  "isSep c = (c = 0x2D \<or> c = 0x5F \<or> isSpace c)"

abbreviation sp :: code_unit where  \<comment> \<open>the space character \<open>' '\<close>\<close>
  "sp \<equiv> 0x20"

subsection \<open>String methods\<close>

text \<open>
  \<open>toLowerCase\<close> and \<open>toUpperCase\<close> map \<open>A-Z\<close> to \<open>a-z\<close> and back and leave every other
  ASCII code unit alone. Outside ASCII they follow the Unicode case tables of the engine,
  which are not part of this repository: there the model leaves the code unit unchanged.
  Every converter but \<open>toCamelCase\<close> changes case only after it has replaced everything
  outside \<open>[a-zA-Z0-9\s]\<close>, so only ASCII letters, digits and spaces reach these two
  functions (lemmas \<open>normalised_chars\<close>, \<open>kebabWords_chars\<close> and \<open>split_sp_chars\<close>
  below); \<open>toCamelCase\<close> is only ever evaluated on ASCII strings.
\<close>

definition lowerCU :: "code_unit \<Rightarrow> code_unit" where
  "lowerCU c = (if isUpper c then c + 0x20 else c)"

definition upperCU :: "code_unit \<Rightarrow> code_unit" where
  "upperCU c = (if isLower c then c - 0x20 else c)"

definition toLowerCase :: "jstring \<Rightarrow> jstring" where
  "toLowerCase s = map lowerCU s"

definition toUpperCase :: "jstring \<Rightarrow> jstring" where
  "toUpperCase s = map upperCU s"

definition trim :: "jstring \<Rightarrow> jstring" where
  "trim s = rev (dropWhile isSpace (rev (dropWhile isSpace s)))"

definition replaceEach :: "(code_unit \<Rightarrow> bool) \<Rightarrow> jstring \<Rightarrow> jstring" where
  \<comment> \<open>\<open>s.replace(/[^...]/g, ' ')\<close>: every code unit outside the class \<open>keep\<close> becomes a space\<close>
  "replaceEach keep s = map (\<lambda>c. if keep c then c else sp) s"

function collapseWs :: "jstring \<Rightarrow> jstring" where
  \<comment> \<open>\<open>s.replace(/\s+/g, ' ')\<close>: every maximal run of whitespace becomes one space\<close>
  "collapseWs [] = []"
| "collapseWs (c # cs) =
     (if isSpace c then sp # collapseWs (dropWhile isSpace cs) else c # collapseWs cs)"
  by pat_completeness auto
termination
  by (relation "measure length") (auto simp: le_imp_less_Suc length_dropWhile_le)

fun insertBoundary :: "jstring \<Rightarrow> jstring" where
  \<comment> \<open>\<open>s.replace(/([a-z])([A-Z])/g, '$1 $2')\<close>: the scan resumes after the matched pair\<close>
  "insertBoundary (a # b # cs) =
     (if isLower a \<and> isUpper b then a # sp # b # insertBoundary cs
      else a # insertBoundary (b # cs))"
| "insertBoundary cs = cs"

fun split_sp :: "jstring \<Rightarrow> jstring list" where
  \<comment> \<open>\<open>s.split(' ')\<close>; the empty string splits into one empty segment\<close>
  "split_sp [] = [[]]"
| "split_sp (c # cs) =
     (if c = sp then [] # split_sp cs
      else (case split_sp cs of w # ws \<Rightarrow> (c # w) # ws | [] \<Rightarrow> [[c]]))"

fun join :: "jstring \<Rightarrow> jstring list \<Rightarrow> jstring" where
  \<comment> \<open>\<open>ws.join(sep)\<close>\<close>
  "join sep [] = []"
| "join sep [w] = w"
| "join sep (w # ws) = w @ sep @ join sep ws"

definition capitalize :: "jstring \<Rightarrow> jstring" where
  \<comment> \<open>\<open>w.charAt(0).toUpperCase() + w.slice(1)\<close>; \<open>charAt(0)\<close> of the empty string is empty\<close>
  "capitalize w = toUpperCase (take 1 w) @ drop 1 w"

definition nonEmpty :: "jstring \<Rightarrow> bool" where  \<comment> \<open>\<open>word => word.length > 0\<close>\<close>
  "nonEmpty w = (length w > 0)"

section \<open>chain\_prompt.js\<close>

definition received :: "js_value \<Rightarrow> jstring" where
  \<comment> \<open>\<open>${str === null ? 'null' : typeof str}\<close>\<close>
  "received v = (if v = JNull then js ''null'' else typeof v)"

definition invalidInput :: "js_value \<Rightarrow> js_error" where
  "invalidInput v = TypeError (js ''Input must be a string, received '' @ received v)"

definition normalizeString :: "js_value \<Rightarrow> js_error + jstring list" where
  "normalizeString v =
     (case v of
        JString str \<Rightarrow>
          (let str = trim str in
           if length str = 0 then Inr []
           else
             let str = trim (collapseWs (replaceEach (\<lambda>c. isAlnum c \<or> isSpace c) str))
             in Inr (filter nonEmpty (split_sp str)))
      | _ \<Rightarrow> Inl (invalidInput v))"

text \<open>
  The part of each \<open>chain...\<close> function after \<open>const words = normalizeString(str)\<close>:
  the rendering of a token sequence.
\<close>

definition renderCamel :: "jstring list \<Rightarrow> jstring" where
  "renderCamel words =
     (if length words = 0 then []
      else join []
        (map (\<lambda>(index, word).
                let lower = toLowerCase word in
                if index = 0 then lower else capitalize lower)
             (enumerate 0 words)))"

definition renderSnake :: "jstring list \<Rightarrow> jstring" where
  "renderSnake words = join (js ''_'') (map toLowerCase words)"

definition renderDot :: "jstring list \<Rightarrow> jstring" where
  "renderDot words = join (js ''.'') (map toLowerCase words)"

definition renderKebab :: "jstring list \<Rightarrow> jstring" where
  "renderKebab words = join (js ''-'') (map toLowerCase words)"

definition renderPascal :: "jstring list \<Rightarrow> jstring" where
  "renderPascal words = join [] (map (\<lambda>word. capitalize (toLowerCase word)) words)"

definition chainCamelCase :: "js_value \<Rightarrow> js_error + jstring" where
  "chainCamelCase v = map_sum id renderCamel (normalizeString v)"

definition chainSnakeCase :: "js_value \<Rightarrow> js_error + jstring" where
  "chainSnakeCase v = map_sum id renderSnake (normalizeString v)"

definition chainDotCase :: "js_value \<Rightarrow> js_error + jstring" where
  "chainDotCase v = map_sum id renderDot (normalizeString v)"

definition chainKebabCase :: "js_value \<Rightarrow> js_error + jstring" where
  "chainKebabCase v = map_sum id renderKebab (normalizeString v)"

definition chainPascalCase :: "js_value \<Rightarrow> js_error + jstring" where
  "chainPascalCase v = map_sum id renderPascal (normalizeString v)"

definition kebabWords :: "jstring \<Rightarrow> jstring list" where
  \<comment> \<open>the \<open>words\<close> of \<open>toKebabCase\<close>, from its trimmed, non-empty argument\<close>
  "kebabWords str =
     (let str = replaceEach (\<lambda>c. isAlnum c \<or> isSpace c) str;
          str = insertBoundary str;
          str = trim (collapseWs str)
      in filter nonEmpty (split_sp str))"

definition toKebabCase :: "js_value \<Rightarrow> js_error + jstring" where
  "toKebabCase v =
     (case v of
        JString str \<Rightarrow>
          (let str = trim str in
           if length str = 0 then Inr []
           else
             let words = kebabWords str in
             if length words = 0 then Inr []
             else Inr (join (js ''-'') (map toLowerCase words)))
      | _ \<Rightarrow> Inl (invalidInput v))"

section \<open>refined\_prompt.js\<close>

definition robustCamelCase :: "js_value \<Rightarrow> js_error + jstring" where
  "robustCamelCase v =
     (case v of
        JString str \<Rightarrow>
          (let str = trim str in
           if length str = 0 then Inr []
           else
             let str = trim (collapseWs (replaceEach (\<lambda>c. isAlnum c \<or> isSpace c) str));
                 words = filter nonEmpty (split_sp str)
             in if length words = 0 then Inr []
                else Inr (join []
                  (map (\<lambda>(index, word).
                          let lowerWord = toLowerCase word in
                          if index = 0 then lowerWord else capitalize lowerWord)
                       (enumerate 0 words))))
      | _ \<Rightarrow> Inl (invalidInput v))"

definition toDotCase :: "js_value \<Rightarrow> js_error + jstring" where
  "toDotCase v =
     (case v of
        JString str \<Rightarrow>
          (let str = trim str in
           if length str = 0 then Inr []
           else
             let str = trim (collapseWs (replaceEach (\<lambda>c. isAlnum c \<or> isSpace c) str))
             in Inr (join (js ''.'') (filter nonEmpty (split_sp (toLowerCase str)))))
      | _ \<Rightarrow> Inl (invalidInput v))"

definition errorString :: "js_value \<Rightarrow> jstring" where
  \<comment> \<open>\<open>`Error: Input must be a string, but received ${typeof str}`\<close>, a returned string\<close>
  "errorString v = js ''Error: Input must be a string, but received '' @ typeof v"

definition camelCase :: "js_value \<Rightarrow> js_error + jstring" where
  "camelCase v =
     (case v of
        JString str \<Rightarrow>
          (let str = trim str in
           if length str = 0 then Inr []
           else
             let str = trim (collapseWs (replaceEach (\<lambda>c. isLetter c \<or> isSpace c) str))
             in Inr (join []
                  (filter nonEmpty
                    (map (\<lambda>(index, word).
                            if length word = 0 then []
                            else if index = 0 then word
                            else capitalize word)
                         (enumerate 0 (split_sp (toLowerCase str)))))))
      | _ \<Rightarrow> Inr (errorString v))"

definition toSnakeCase :: "js_value \<Rightarrow> js_error + jstring" where
  "toSnakeCase v =
     (case v of
        JString str \<Rightarrow>
          (let str = trim str in
           if length str = 0 then Inr []
           else
             let str = trim (collapseWs (replaceEach (\<lambda>c. isAlnum c \<or> isSpace c) str))
             in Inr (join (js ''_'') (filter nonEmpty (split_sp (toLowerCase str)))))
      | _ \<Rightarrow> Inr (errorString v))"

function camelSeps :: "jstring \<Rightarrow> jstring" where
  \<comment> \<open>\<open>s.replace(/[-_\s]+(.)?/g, (_, c) => c ? c.toUpperCase() : '')\<close>: a maximal run
      of separators and the code unit after it, if there is one that \<open>.\<close> matches, are
      replaced by that code unit in upper case\<close>
  "camelSeps [] = []"
| "camelSeps (c # cs) =
     (if isSep c then
        (case dropWhile isSep cs of
           [] \<Rightarrow> []
         | d # ds \<Rightarrow>
             if isLineTerminator d then camelSeps (d # ds)
             else upperCU d # camelSeps ds)
      else c # camelSeps cs)"
  by pat_completeness auto
termination
proof (relation "measure length")
  fix c :: code_unit and cs d ds
  assume "dropWhile isSep cs = d # ds"
  then have "length (d # ds) \<le> length cs"
    by (metis length_dropWhile_le)
  then show "(d # ds, c # cs) \<in> measure length" "(ds, c # cs) \<in> measure length"
    by auto
qed auto

definition lowerFirst :: "jstring \<Rightarrow> jstring" where
  \<comment> \<open>\<open>s.replace(/^(.)/, (c) => c.toLowerCase())\<close>\<close>
  "lowerFirst s =
     (case s of
        [] \<Rightarrow> []
      | c # cs \<Rightarrow> if isLineTerminator c then s else lowerCU c # cs)"

fun hasToLowerCase :: "js_value \<Rightarrow> bool" where
  \<comment> \<open>whether \<open>v.toLowerCase\<close> is the method of \<open>String.prototype\<close>\<close>
  "hasToLowerCase (JString s) = True"
| "hasToLowerCase (JStringObject s) = True"
| "hasToLowerCase v = False"

definition callToLowerCase :: "js_value \<Rightarrow> js_error + jstring" where
  \<comment> \<open>\<open>str.toLowerCase()\<close> on the argument as it comes: a string and a String object
      answer with the lowercased string; reading the property of \<open>null\<close> or
      \<open>undefined\<close>, or calling the missing method of any other value, is a TypeError of
      the engine\<close>
  "callToLowerCase v =
     (case v of
        JString s \<Rightarrow> Inr (toLowerCase s)
      | JStringObject s \<Rightarrow> Inr (toLowerCase s)
      | _ \<Rightarrow> Inl RuntimeTypeError)"

definition toCamelCase :: "js_value \<Rightarrow> js_error + jstring" where
  \<comment> \<open>no type check: the first thing done with \<open>str\<close> is the call \<open>str.toLowerCase()\<close>\<close>
  "toCamelCase v =
     (case callToLowerCase v of
        Inl e \<Rightarrow> Inl e
      | Inr lowered \<Rightarrow> Inr (lowerFirst (camelSeps lowered)))"

section \<open>Auxiliary definitions\<close>

text \<open>
  Words of lowercase letters and digits, none of them empty: what the separator formats
  join.
\<close>

definition lowWords :: "jstring list \<Rightarrow> bool" where
  "lowWords ws = (\<forall>w\<in>set ws. w \<noteq> [] \<and> (\<forall>c\<in>set w. isLower c \<or> isDigit c))"

text \<open>The string part of \<open>toSnakeCase\<close> and \<open>toDotCase\<close>, for the separator \<open>x\<close>.\<close>

definition lowerJoin :: "code_unit \<Rightarrow> jstring \<Rightarrow> jstring" where
  "lowerJoin x s =
     (if trim s = [] then []
      else join [x] (filter nonEmpty (split_sp (toLowerCase
             (trim (collapseWs (replaceEach (\<lambda>c. isAlnum c \<or> isSpace c) (trim s))))))))"

text \<open>The string part of \<open>toKebabCase\<close>.\<close>

definition kebabJoin :: "jstring \<Rightarrow> jstring" where
  "kebabJoin s =
     (if trim s = [] then []
      else if kebabWords (trim s) = [] then []
      else join [0x2D] (map toLowerCase (kebabWords (trim s))))"

text \<open>
  The tokens as the specification describes them: the maximal contiguous runs of ASCII
  letters and digits of a string, from left to right. Written from that description, to
  be compared with what \<open>normalizeString\<close> computes.
\<close>

function alnumRuns :: "jstring \<Rightarrow> jstring list" where
  "alnumRuns [] = []"
| "alnumRuns (c # cs) =
     (if isAlnum c then takeWhile isAlnum (c # cs) # alnumRuns (dropWhile isAlnum cs)
      else alnumRuns cs)"
  by pat_completeness auto
termination
  by (relation "measure length") (auto simp: le_imp_less_Suc length_dropWhile_le)

text \<open>The pieces of a string between the code units of a class \<open>q\<close>, empty ones included.\<close>

fun splitBy :: "(code_unit \<Rightarrow> bool) \<Rightarrow> jstring \<Rightarrow> jstring list" where
  "splitBy q [] = [[]]"
| "splitBy q (c # cs) =
     (if q c then [] # splitBy q cs
      else (case splitBy q cs of w # ws \<Rightarrow> (c # w) # ws | [] \<Rightarrow> [[c]]))"

section \<open>Properties of the string operations\<close>

subsection \<open>Code units\<close>

lemma alnum_not_space: "isAlnum c \<Longrightarrow> \<not> isSpace c"
  unfolding isAlnum_def isLower_def isUpper_def isDigit_def isSpace_def isLineTerminator_def
  by (auto simp: word_le_nat_alt)

lemma letter_alnum: "isLetter c \<Longrightarrow> isAlnum c"
  by (auto simp: isLetter_def isAlnum_def)

lemma letter_not_digit: "isLetter c \<Longrightarrow> \<not> isDigit c"
  unfolding isLetter_def isLower_def isUpper_def isDigit_def
  by (auto simp: word_le_nat_alt)

lemma space_sp: "isSpace sp"
  by (simp add: isSpace_def)

lemma lowerCU_sp_iff: "lowerCU c = sp \<longleftrightarrow> c = sp"
  unfolding lowerCU_def isUpper_def
  by (auto simp: word_le_nat_alt unat_word_ariths word_eq_iff_unsigned[where ?'a=nat])

lemma lowerCU_alnum: "isAlnum c \<Longrightarrow> isLower (lowerCU c) \<or> isDigit (lowerCU c)"
  unfolding lowerCU_def isAlnum_def isUpper_def isLower_def isDigit_def
  by (auto simp: word_le_nat_alt unat_word_ariths)

lemma lowerCU_letter: "isLetter c \<Longrightarrow> isLower (lowerCU c)"
  unfolding lowerCU_def isLetter_def isUpper_def isLower_def
  by (auto simp: word_le_nat_alt unat_word_ariths)

lemma upperCU_lower: "isLower c \<Longrightarrow> isUpper (upperCU c)"
  unfolding upperCU_def isUpper_def isLower_def
  by (auto simp: word_le_nat_alt unat_sub_if')

lemma lowerCU_id: "isLower c \<or> isDigit c \<Longrightarrow> lowerCU c = c"
  unfolding lowerCU_def isUpper_def isLower_def isDigit_def
  by (auto simp: word_le_nat_alt)

lemma low_not_upper: "isLower c \<or> isDigit c \<Longrightarrow> \<not> isUpper c"
  unfolding isUpper_def isLower_def isDigit_def
  by (auto simp: word_le_nat_alt)

lemma separators_folded:
  "\<not> isAlnum 0x5F" "\<not> isSpace 0x5F" "\<not> isAlnum 0x2D" "\<not> isSpace 0x2D"
  "\<not> isAlnum 0x2E" "\<not> isSpace 0x2E"
  by (simp_all add: isAlnum_def isLower_def isUpper_def isDigit_def isSpace_def
        isLineTerminator_def)

subsection \<open>trim, replace, collapse\<close>

lemma set_trim: "set (trim s) \<subseteq> set s"
  unfolding trim_def by (auto dest!: set_dropWhileD)

lemma trim_id: "s = [] \<or> (\<not> isSpace (hd s) \<and> \<not> isSpace (last s)) \<Longrightarrow> trim s = s"
  unfolding trim_def
  by (cases s) (auto simp: dropWhile_eq_self_iff hd_rev split: if_splits)

lemma filter_dropWhile:
  "(\<And>x. Q x \<Longrightarrow> \<not> P x) \<Longrightarrow> filter P (dropWhile Q xs) = filter P xs"
  by (induction xs) auto

lemma filter_trim: "(\<And>x. isSpace x \<Longrightarrow> \<not> P x) \<Longrightarrow> filter P (trim s) = filter P s"
  unfolding trim_def
  by (simp add: filter_dropWhile flip: rev_filter)

lemma set_replaceEach: "c \<in> set (replaceEach K s) \<Longrightarrow> K c \<or> c = sp"
  unfolding replaceEach_def by auto

lemma filter_replaceEach:
  "(\<And>x. P x \<Longrightarrow> K x) \<Longrightarrow> \<not> P sp \<Longrightarrow> filter P (replaceEach K s) = filter P s"
  unfolding replaceEach_def by (induction s) auto

lemma set_collapseWs: "c \<in> set (collapseWs s) \<Longrightarrow> (c \<in> set s \<and> \<not> isSpace c) \<or> c = sp"
  by (induction s rule: collapseWs.induct) (auto dest: set_dropWhileD split: if_splits)

lemma filter_collapseWs:
  "(\<And>x. isSpace x \<Longrightarrow> \<not> P x) \<Longrightarrow> filter P (collapseWs s) = filter P s"
proof (induction s rule: collapseWs.induct)
  case 1
  then show ?case by simp
next
  case (2 c cs)
  then show ?case
    by (auto simp: filter_dropWhile space_sp)
qed

lemma set_insertBoundary: "c \<in> set (insertBoundary s) \<Longrightarrow> c \<in> set s \<or> c = sp"
  by (induction s rule: insertBoundary.induct) (auto split: if_splits)

lemma insertBoundary_id: "(\<And>c. c \<in> set s \<Longrightarrow> \<not> isUpper c) \<Longrightarrow> insertBoundary s = s"
  by (induction s rule: insertBoundary.induct) auto

lemma filter_insertBoundary: "\<not> P sp \<Longrightarrow> filter P (insertBoundary s) = filter P s"
  by (induction s rule: insertBoundary.induct) auto

lemma normalised_chars:
  assumes "c \<in> set (trim (collapseWs (replaceEach (\<lambda>c. K c \<or> isSpace c) s)))"
  shows "K c \<or> c = sp"
proof -
  from assms have "c \<in> set (collapseWs (replaceEach (\<lambda>c. K c \<or> isSpace c) s))"
    using set_trim by blast
  then show ?thesis
    by (auto dest!: set_collapseWs set_replaceEach)
qed

subsection \<open>split and join\<close>

lemma split_sp_not_Nil: "split_sp t \<noteq> []"
  by (induction t) (auto split: list.splits)

lemma concat_split_sp: "concat (split_sp t) = filter (\<lambda>c. c \<noteq> sp) t"
  by (induction t) (auto split: list.splits)

lemma split_sp_chars:
  assumes "w \<in> set (split_sp t)" and "c \<in> set w"
  shows "c \<in> set t \<and> c \<noteq> sp"
proof -
  from assms have "c \<in> set (concat (split_sp t))" by auto
  then show ?thesis by (simp add: concat_split_sp)
qed

lemma concat_filter_nonEmpty: "concat (filter nonEmpty ws) = concat ws"
  by (induction ws) (auto simp: nonEmpty_def)

lemma split_sp_map:
  "(\<And>c. f c = sp \<longleftrightarrow> c = sp) \<Longrightarrow> split_sp (map f t) = map (map f) (split_sp t)"
  by (induction t) (auto split: list.splits)

lemma split_sp_word: "sp \<notin> set w \<Longrightarrow> split_sp w = [w]"
  by (induction w) auto

lemma split_sp_append: "sp \<notin> set w \<Longrightarrow> split_sp (w @ sp # t) = w # split_sp t"
  by (induction w) auto

lemma split_sp_join:
  "ws \<noteq> [] \<Longrightarrow> \<forall>w\<in>set ws. sp \<notin> set w \<Longrightarrow> split_sp (join [sp] ws) = ws"
  by (induction "[sp]" ws rule: join.induct) (auto simp: split_sp_word split_sp_append)

lemma set_join: "c \<in> set (join sep ws) \<Longrightarrow> c \<in> set sep \<or> (\<exists>w\<in>set ws. c \<in> set w)"
  by (induction sep ws rule: join.induct) auto

lemma join_Nil_concat: "join [] ws = concat ws"
  by (induction "[] :: jstring" ws rule: join.induct) auto

lemma replaceEach_word: "(\<And>c. c \<in> set w \<Longrightarrow> K c) \<Longrightarrow> replaceEach K w = w"
  unfolding replaceEach_def by (induction w) auto

lemma replaceEach_Cons:
  "replaceEach K (c # s) = (if K c then c else sp) # replaceEach K s"
  "replaceEach K [] = []"
  unfolding replaceEach_def by simp_all

lemma replaceEach_append: "replaceEach K (s @ t) = replaceEach K s @ replaceEach K t"
  unfolding replaceEach_def by simp

lemma replaceEach_join:
  "\<not> K x \<Longrightarrow> \<forall>w\<in>set ws. \<forall>c\<in>set w. K c
   \<Longrightarrow> replaceEach K (join [x] ws) = join [sp] ws"
  by (induction "[x]" ws rule: join.induct)
     (simp_all add: replaceEach_word replaceEach_append replaceEach_Cons)

lemma collapseWs_word: "(\<And>c. c \<in> set w \<Longrightarrow> \<not> isSpace c) \<Longrightarrow> collapseWs (w @ t) = w @ collapseWs t"
  by (induction w) auto

lemma hd_join: "ws \<noteq> [] \<Longrightarrow> hd ws \<noteq> [] \<Longrightarrow> hd (join sep ws) = hd (hd ws)"
  by (induction sep ws rule: join.induct) auto

lemma join_not_Nil: "ws \<noteq> [] \<Longrightarrow> last ws \<noteq> [] \<Longrightarrow> join sep ws \<noteq> []"
  by (induction sep ws rule: join.induct) auto

lemma last_join: "ws \<noteq> [] \<Longrightarrow> last ws \<noteq> [] \<Longrightarrow> last (join sep ws) = last (last ws)"
  by (induction sep ws rule: join.induct) (auto simp: join_not_Nil)

lemma join_eq_Nil: "\<forall>w\<in>set ws. w \<noteq> [] \<Longrightarrow> join sep ws = [] \<longleftrightarrow> ws = []"
  by (induction sep ws rule: join.induct) auto

lemma collapseWs_join:
  "\<forall>w\<in>set ws. w \<noteq> [] \<and> (\<forall>c\<in>set w. \<not> isSpace c)
   \<Longrightarrow> collapseWs (join [sp] ws) = join [sp] ws"
proof (induction "[sp]" ws rule: join.induct)
  case 1
  then show ?case by simp
next
  case (2 w)
  then show ?case using collapseWs_word [of w "[]"] by simp
next
  case (3 w v vs)
  let ?rest = "join [sp] (v # vs)"
  have "?rest \<noteq> []"
    using "3.prems" join_eq_Nil [of "v # vs" "[sp]"] by auto
  moreover have "hd ?rest = hd v"
    using "3.prems" hd_join [of "v # vs" "[sp]"] by simp
  moreover have "\<not> isSpace (hd v)"
    using "3.prems" by simp
  ultimately have "dropWhile isSpace ?rest = ?rest"
    by (simp add: dropWhile_eq_self_iff)
  moreover have "collapseWs ?rest = ?rest"
    using 3 by simp
  moreover have "collapseWs (w @ sp # ?rest) = w @ collapseWs (sp # ?rest)"
    using "3.prems" by (intro collapseWs_word) simp
  ultimately show ?case
    by (simp add: space_sp)
qed

lemma trim_join:
  assumes "\<forall>w\<in>set ws. w \<noteq> [] \<and> (\<forall>c\<in>set w. \<not> isSpace c)"
  shows "trim (join sep ws) = join sep ws"
proof (cases "ws = []")
  case True
  then show ?thesis by (simp add: trim_def)
next
  case False
  then have "hd ws \<in> set ws" "last ws \<in> set ws" by simp_all
  then have "hd ws \<noteq> []" "last ws \<noteq> []" "\<not> isSpace (hd (hd ws))" "\<not> isSpace (last (last ws))"
    using assms by simp_all
  then show ?thesis
    using False by (intro trim_id) (simp add: hd_join last_join)
qed

lemma space_not_alnum: "isSpace c \<Longrightarrow> \<not> isAlnum c"
  using alnum_not_space by blast

lemma not_alnum_sp: "\<not> isAlnum sp"
  using alnum_not_space space_sp by blast

lemma filter_alnum_trim: "filter isAlnum (trim s) = filter isAlnum s"
  by (rule filter_trim) (rule space_not_alnum)

lemma filter_normalised:
  "filter isAlnum (trim (collapseWs (replaceEach (\<lambda>c. isAlnum c \<or> isSpace c) s))) = filter isAlnum s"
proof -
  have "filter isAlnum (collapseWs (replaceEach (\<lambda>c. isAlnum c \<or> isSpace c) s))
      = filter isAlnum (replaceEach (\<lambda>c. isAlnum c \<or> isSpace c) s)"
    by (rule filter_collapseWs) (rule space_not_alnum)
  also have "\<dots> = filter isAlnum s"
    by (rule filter_replaceEach) (simp_all add: not_alnum_sp)
  finally show ?thesis
    by (simp add: filter_alnum_trim)
qed

lemma tokens_of_normalised:
  assumes "\<And>c. c \<in> set n \<Longrightarrow> isAlnum c \<or> c = sp"
  shows "list_all (\<lambda>w. w \<noteq> [] \<and> list_all isAlnum w) (filter nonEmpty (split_sp n))"
    and "concat (filter nonEmpty (split_sp n)) = filter isAlnum n"
proof -
  have "isAlnum c" if "w \<in> set (split_sp n)" "c \<in> set w" for w c
    using split_sp_chars [OF that] assms by blast
  then show "list_all (\<lambda>w. w \<noteq> [] \<and> list_all isAlnum w) (filter nonEmpty (split_sp n))"
    by (auto simp: list_all_iff nonEmpty_def)
  have "filter (\<lambda>c. c \<noteq> sp) n = filter isAlnum n"
    using assms not_alnum_sp by (intro filter_cong) auto
  then show "concat (filter nonEmpty (split_sp n)) = filter isAlnum n"
    by (simp add: concat_filter_nonEmpty concat_split_sp)
qed

subsection \<open>normalizeString\<close>

lemma normalizeString_tokens:
  "\<exists>ws. normalizeString (JString s) = Inr ws
        \<and> list_all (\<lambda>w. w \<noteq> [] \<and> list_all isAlnum w) ws
        \<and> concat ws = filter isAlnum s"
proof (cases "trim s = []")
  case True
  have "filter isAlnum s = filter isAlnum (trim s)"
    by (simp add: filter_alnum_trim)
  with True show ?thesis
    by (simp add: normalizeString_def)
next
  case False
  let ?n = "trim (collapseWs (replaceEach (\<lambda>c. isAlnum c \<or> isSpace c) (trim s)))"
  have chars: "\<And>c. c \<in> set ?n \<Longrightarrow> isAlnum c \<or> c = sp"
    by (rule normalised_chars)
  have "filter isAlnum ?n = filter isAlnum (trim s)"
    by (rule filter_normalised)
  then have "filter isAlnum ?n = filter isAlnum s"
    by (simp only: filter_alnum_trim)
  with False tokens_of_normalised [OF chars] show ?thesis
    by (simp add: normalizeString_def Let_def)
qed

lemma normalizeString_no_alnum:
  assumes "list_all (\<lambda>c. \<not> isAlnum c) s"
  shows "normalizeString (JString s) = Inr []"
proof -
  from normalizeString_tokens [of s] obtain ws where ws: "normalizeString (JString s) = Inr ws"
    "list_all (\<lambda>w. w \<noteq> [] \<and> list_all isAlnum w) ws" "concat ws = filter isAlnum s"
    by blast
  from assms have "filter isAlnum s = []"
    by (simp add: filter_empty_conv list_all_iff)
  with ws(2,3) have "ws = []"
    by (cases ws) auto
  with ws(1) show ?thesis by simp
qed

subsection \<open>Maximal runs of letters and digits\<close>

lemma nonEmpty_simps: "\<not> nonEmpty []" "nonEmpty (c # cs)"
  by (simp_all add: nonEmpty_def)

lemma splitBy_not_Nil: "splitBy q x \<noteq> []"
  by (induction x) (auto split: list.splits)

lemma split_sp_splitBy: "split_sp x = splitBy (\<lambda>c. c = sp) x"
  by (induction x) auto

lemma splitBy_cong: "(\<And>c. c \<in> set x \<Longrightarrow> q c = q' c) \<Longrightarrow> splitBy q x = splitBy q' x"
  by (induction x) auto

lemma splitBy_map:
  assumes "\<And>c. q (f c) = q c" and "\<And>c. \<not> q c \<Longrightarrow> f c = c"
  shows "splitBy q (map f x) = splitBy q x"
proof (induction x)
  case Nil
  then show ?case by simp
next
  case (Cons a x)
  show ?case
  proof (cases "q a")
    case True
    then have "q (f a)" by (simp add: assms(1))
    with True Cons show ?thesis by simp
  next
    case False
    then have "f a = a" "\<not> q (f a)" by (simp_all add: assms)
    with False Cons show ?thesis by simp
  qed
qed

lemma splitBy_append_gap: "q g \<Longrightarrow> splitBy q (x @ g # y) = splitBy q x @ splitBy q y"
  by (induction x) (auto split: list.splits simp: splitBy_not_Nil)

lemma splitBy_word: "(\<And>c. c \<in> set w \<Longrightarrow> \<not> q c) \<Longrightarrow> splitBy q w = [w]"
  by (induction w) auto

lemma pieces_dropWhile:
  "(\<And>c. g c \<Longrightarrow> q c)
   \<Longrightarrow> filter nonEmpty (splitBy q (dropWhile g x)) = filter nonEmpty (splitBy q x)"
  by (induction x) (auto simp: nonEmpty_simps)

lemma pieces_append_gaps:
  "(\<And>c. c \<in> set b \<Longrightarrow> q c)
   \<Longrightarrow> filter nonEmpty (splitBy q (a @ b)) = filter nonEmpty (splitBy q a)"
proof (induction b arbitrary: a)
  case Nil
  then show ?case by simp
next
  case (Cons g b)
  have "filter nonEmpty (splitBy q b) = filter nonEmpty (splitBy q [])"
    using Cons.IH [of "[]"] Cons.prems by simp
  then show ?case
    using Cons.prems by (simp add: splitBy_append_gap nonEmpty_simps)
qed

lemma pieces_trim:
  assumes "\<And>c. isSpace c \<Longrightarrow> q c"
  shows "filter nonEmpty (splitBy q (trim x)) = filter nonEmpty (splitBy q x)"
proof -
  let ?d = "dropWhile isSpace x"
  have "rev (dropWhile isSpace (rev ?d)) @ rev (takeWhile isSpace (rev ?d)) = ?d"
    by (metis rev_append rev_rev_ident takeWhile_dropWhile_id)
  moreover have "\<And>c. c \<in> set (rev (takeWhile isSpace (rev ?d))) \<Longrightarrow> q c"
    using assms by (auto dest: set_takeWhileD)
  ultimately have "filter nonEmpty (splitBy q (rev (dropWhile isSpace (rev ?d))))
      = filter nonEmpty (splitBy q ?d)"
    using pieces_append_gaps [of "rev (takeWhile isSpace (rev ?d))" q
        "rev (dropWhile isSpace (rev ?d))"] by simp
  then show ?thesis
    using pieces_dropWhile [of isSpace q x] assms by (simp add: trim_def)
qed

lemma splitBy_collapseWs:
  assumes "\<And>c. isSpace c \<Longrightarrow> q c" and "q sp"
  shows "\<exists>w ws ws'. splitBy q x = w # ws \<and> splitBy q (collapseWs x) = w # ws'
           \<and> filter nonEmpty ws = filter nonEmpty ws'"
proof (induction x rule: collapseWs.induct)
  case 1
  then show ?case by simp
next
  case (2 c cs)
  show ?case
  proof (cases "isSpace c")
    case True
    with 2 obtain w ws ws' where d: "splitBy q (dropWhile isSpace cs) = w # ws"
      "splitBy q (collapseWs (dropWhile isSpace cs)) = w # ws'"
      "filter nonEmpty ws = filter nonEmpty ws'"
      by blast
    then have "filter nonEmpty (splitBy q (collapseWs (dropWhile isSpace cs)))
        = filter nonEmpty (splitBy q (dropWhile isSpace cs))"
      by simp
    also have "\<dots> = filter nonEmpty (splitBy q cs)"
      using assms(1) by (rule pieces_dropWhile)
    finally show ?thesis
      using True assms by (simp add: nonEmpty_simps)
  next
    case False
    with 2 obtain w ws ws' where d: "splitBy q cs = w # ws"
      "splitBy q (collapseWs cs) = w # ws'" "filter nonEmpty ws = filter nonEmpty ws'"
      by blast
    then show ?thesis
      using False by simp
  qed
qed

lemma pieces_collapseWs:
  assumes "\<And>c. isSpace c \<Longrightarrow> q c" and "q sp"
  shows "filter nonEmpty (splitBy q (collapseWs x)) = filter nonEmpty (splitBy q x)"
  using splitBy_collapseWs [of q x] assms by auto

lemma pieces_word:
  assumes "w \<noteq> []" and "\<And>c. c \<in> set w \<Longrightarrow> \<not> q c" and "r = [] \<or> q (hd r)"
  shows "filter nonEmpty (splitBy q (w @ r)) = w # filter nonEmpty (splitBy q r)"
proof (cases r)
  case Nil
  then show ?thesis
    using assms(1) splitBy_word [of w q] assms(2) by (simp add: nonEmpty_def)
next
  case (Cons g r')
  then have "q g" using assms(3) by simp
  then show ?thesis
    using assms(1) splitBy_word [of w q] assms(2) Cons
    by (simp add: splitBy_append_gap nonEmpty_def)
qed

lemma pieces_alnumRuns: "filter nonEmpty (splitBy (\<lambda>c. \<not> isAlnum c) x) = alnumRuns x"
proof (induction x rule: alnumRuns.induct)
  case 1
  then show ?case by (simp add: nonEmpty_simps)
next
  case (2 c cs)
  show ?case
  proof (cases "isAlnum c")
    case False
    with 2 show ?thesis by (simp add: nonEmpty_simps)
  next
    case True
    define w where "w = takeWhile isAlnum (c # cs)"
    define r where "r = dropWhile isAlnum cs"
    have x: "c # cs = w @ r"
      using True by (simp add: w_def r_def)
    have w: "w \<noteq> []" "\<And>d. d \<in> set w \<Longrightarrow> \<not> \<not> isAlnum d"
      using True by (auto simp: w_def dest: set_takeWhileD)
    have r: "r = [] \<or> \<not> isAlnum (hd r)"
      unfolding r_def by (metis hd_dropWhile)
    have "filter nonEmpty (splitBy (\<lambda>c. \<not> isAlnum c) (w @ r))
        = w # filter nonEmpty (splitBy (\<lambda>c. \<not> isAlnum c) r)"
      using w r by (rule pieces_word)
    also have "filter nonEmpty (splitBy (\<lambda>c. \<not> isAlnum c) r) = alnumRuns r"
      unfolding r_def using 2(1) [OF True] .
    also have "w # alnumRuns r = alnumRuns (c # cs)"
      using True by (simp add: w_def r_def)
    finally show ?thesis
      by (simp only: x)
  qed
qed

lemma alnumRuns_trim: "alnumRuns (trim x) = alnumRuns x"
  using pieces_trim [of "\<lambda>c. \<not> isAlnum c" x] space_not_alnum
  by (simp add: pieces_alnumRuns)

lemma alnumRuns_collapseWs: "alnumRuns (collapseWs x) = alnumRuns x"
  using pieces_collapseWs [of "\<lambda>c. \<not> isAlnum c" x] space_not_alnum not_alnum_sp
  by (simp add: pieces_alnumRuns)

lemma alnumRuns_replaceEach:
  "alnumRuns (replaceEach (\<lambda>c. isAlnum c \<or> isSpace c) x) = alnumRuns x"
proof -
  have "splitBy (\<lambda>c. \<not> isAlnum c) (map (\<lambda>c. if isAlnum c \<or> isSpace c then c else sp) x)
      = splitBy (\<lambda>c. \<not> isAlnum c) x"
    by (rule splitBy_map) (auto simp: not_alnum_sp)
  then show ?thesis
    by (simp add: replaceEach_def flip: pieces_alnumRuns)
qed

lemma alnumRuns_normalised:
  "alnumRuns (trim (collapseWs (replaceEach (\<lambda>c. isAlnum c \<or> isSpace c) (trim s))))
   = alnumRuns s"
  by (simp only: alnumRuns_trim alnumRuns_collapseWs alnumRuns_replaceEach)

lemma words_alnumRuns:
  assumes "\<And>c. c \<in> set n \<Longrightarrow> isAlnum c \<or> c = sp"
  shows "filter nonEmpty (split_sp n) = alnumRuns n"
proof -
  have "splitBy (\<lambda>c. c = sp) n = splitBy (\<lambda>c. \<not> isAlnum c) n"
    using assms not_alnum_sp by (intro splitBy_cong) auto
  then show ?thesis
    by (simp add: split_sp_splitBy pieces_alnumRuns)
qed

lemma normalizeString_runs: "normalizeString (JString s) = Inr (alnumRuns s)"
proof (cases "trim s = []")
  case True
  then have "alnumRuns s = []"
    using alnumRuns_trim [of s] by simp
  with True show ?thesis
    by (simp add: normalizeString_def)
next
  case False
  let ?n = "trim (collapseWs (replaceEach (\<lambda>c. isAlnum c \<or> isSpace c) (trim s)))"
  have "filter nonEmpty (split_sp ?n) = alnumRuns ?n"
    by (rule words_alnumRuns) (rule normalised_chars)
  then have "filter nonEmpty (split_sp ?n) = alnumRuns s"
    by (simp only: alnumRuns_normalised)
  with False show ?thesis
    by (simp add: normalizeString_def Let_def)
qed

lemma alnumRuns_examples:
  "alnumRuns (js ''ab a b'') = [js ''ab'', js ''a'', js ''b'']"
  "alnumRuns (js ''  hello, World!!  x1 '') = [js ''hello'', js ''World'', js ''x1'']"
  by code_simp+

subsection \<open>camelCase\<close>

lemma set_capitalize: "c \<in> set (capitalize w) \<Longrightarrow> c \<in> set w \<or> c \<in> upperCU ` set w"
  unfolding capitalize_def toUpperCase_def
  by (auto dest: in_set_takeD in_set_dropD)

lemma upperCU_letter: "isLetter c \<Longrightarrow> isLetter (upperCU c)"
  unfolding isLetter_def upperCU_def using upperCU_lower [of c]
  by (auto simp: upperCU_def)

lemma set_enumerate_snd: "(i, w) \<in> set (enumerate n ws) \<Longrightarrow> w \<in> set ws"
  by (auto simp: in_set_enumerate_eq)

lemma lowered_words_letters:
  assumes n: "\<And>d. d \<in> set n \<Longrightarrow> isLetter d \<or> d = sp"
    and w: "w \<in> set (split_sp (toLowerCase n))" and c: "c \<in> set w"
  shows "isLower c"
proof -
  from split_sp_chars [OF w c] have "c \<in> lowerCU ` set n" "c \<noteq> sp"
    by (simp_all add: toLowerCase_def)
  then obtain d where d: "d \<in> set n" "c = lowerCU d" "lowerCU d \<noteq> sp"
    by blast
  then have "d \<noteq> sp" by (simp add: lowerCU_sp_iff)
  with d(1) n have "isLetter d" by blast
  then show ?thesis
    using d(2) by (simp add: lowerCU_letter)
qed

lemma camel_words_letters:
  assumes ws: "\<And>w c. w \<in> set ws \<Longrightarrow> c \<in> set w \<Longrightarrow> isLetter c"
    and c: "c \<in> set (join [] (filter nonEmpty
        (map (\<lambda>(index :: nat, word).
                if length word = 0 then [] else if index = 0 then word else capitalize word)
             (enumerate 0 ws))))"
  shows "isLetter c"
proof -
  from c obtain i w where iw: "(i, w) \<in> set (enumerate 0 ws)"
    and cw: "c \<in> set (if length w = 0 then [] else if i = 0 then w else capitalize w)"
    unfolding join_Nil_concat by fastforce
  from iw have w: "w \<in> set ws"
    by (rule set_enumerate_snd)
  from cw have "c \<in> set w \<or> c \<in> upperCU ` set w"
    by (auto dest: set_capitalize split: if_splits)
  then show ?thesis
    using ws [OF w] upperCU_letter by blast
qed

subsection \<open>Rendered output read again\<close>

lemma low_alnum: "isLower c \<or> isDigit c \<Longrightarrow> isAlnum c"
  by (auto simp: isAlnum_def)

lemma lowWords_no_space: "lowWords ws \<Longrightarrow> \<forall>w\<in>set ws. w \<noteq> [] \<and> (\<forall>c\<in>set w. \<not> isSpace c)"
  unfolding lowWords_def using low_alnum alnum_not_space by blast

lemma lowWords_no_sp: "lowWords ws \<Longrightarrow> \<forall>w\<in>set ws. sp \<notin> set w"
  using lowWords_no_space space_sp by blast

lemma lowWords_kept: "lowWords ws \<Longrightarrow> \<forall>w\<in>set ws. \<forall>c\<in>set w. isAlnum c \<or> isSpace c"
  unfolding lowWords_def using low_alnum by blast

lemma lowWords_nonEmpty: "lowWords ws \<Longrightarrow> filter nonEmpty ws = ws"
  unfolding lowWords_def by (induction ws) (auto simp: nonEmpty_def)

lemma lowWords_lower: "lowWords ws \<Longrightarrow> map toLowerCase ws = ws"
  unfolding lowWords_def toLowerCase_def
  by (intro map_idI) (simp add: lowerCU_id map_idI)

lemma lowWords_Nil: "lowWords []"
  by (simp add: lowWords_def)

lemma toLowerCase_join_sp:
  assumes "lowWords ws"
  shows "toLowerCase (join [sp] ws) = join [sp] ws"
proof -
  have "lowerCU c = c" if "c \<in> set (join [sp] ws)" for c
  proof -
    from set_join [OF that] assms have "c = sp \<or> isLower c \<or> isDigit c"
      unfolding lowWords_def by auto
    then show ?thesis
      using lowerCU_sp_iff [of sp] lowerCU_id [of c] by auto
  qed
  then show ?thesis
    unfolding toLowerCase_def by (intro map_idI)
qed

lemma no_upper_join_sp:
  assumes "lowWords ws" and "c \<in> set (join [sp] ws)"
  shows "\<not> isUpper c"
proof -
  from set_join [OF assms(2)] assms(1) have "c = sp \<or> isLower c \<or> isDigit c"
    unfolding lowWords_def by auto
  then show ?thesis
    using low_not_upper [of c] by (auto simp: isUpper_def)
qed

lemma normalise_join:
  assumes "lowWords ws" and "\<not> isAlnum x" and "\<not> isSpace x"
  shows "trim (collapseWs (replaceEach (\<lambda>c. isAlnum c \<or> isSpace c) (join [x] ws)))
         = join [sp] ws"
proof -
  have "replaceEach (\<lambda>c. isAlnum c \<or> isSpace c) (join [x] ws) = join [sp] ws"
    using assms(2,3) lowWords_kept [OF assms(1)] by (intro replaceEach_join) simp_all
  then show ?thesis
    using lowWords_no_space [OF assms(1)] by (simp add: collapseWs_join trim_join)
qed

lemma tokens_low:
  assumes "\<And>c. c \<in> set n \<Longrightarrow> isAlnum c \<or> c = sp"
  shows "lowWords (filter nonEmpty (split_sp (toLowerCase n)))"
    and "lowWords (map toLowerCase (filter nonEmpty (split_sp n)))"
proof -
  have low: "isLower (lowerCU d) \<or> isDigit (lowerCU d)" if "d \<in> set n" "d \<noteq> sp" for d
    using that assms lowerCU_alnum by blast
  have "isLower c \<or> isDigit c" if "w \<in> set (split_sp (toLowerCase n))" "c \<in> set w" for w c
  proof -
    from split_sp_chars [OF that] have "c \<in> lowerCU ` set n" "c \<noteq> sp"
      by (simp_all add: toLowerCase_def)
    then obtain d where "d \<in> set n" "c = lowerCU d" "lowerCU d \<noteq> sp"
      by blast
    then show ?thesis
      using low [of d] by (auto simp: lowerCU_sp_iff)
  qed
  then show "lowWords (filter nonEmpty (split_sp (toLowerCase n)))"
    by (auto simp: lowWords_def nonEmpty_def)
  have "isLower (lowerCU c) \<or> isDigit (lowerCU c)" if "w \<in> set (split_sp n)" "c \<in> set w" for w c
    using split_sp_chars [OF that] low by blast
  then show "lowWords (map toLowerCase (filter nonEmpty (split_sp n)))"
    by (auto simp: lowWords_def nonEmpty_def toLowerCase_def)
qed

lemma lowerJoin_words: "\<exists>ws. lowWords ws \<and> lowerJoin x s = join [x] ws"
proof (cases "trim s = []")
  case True
  then show ?thesis
    using lowWords_Nil by (auto simp: lowerJoin_def)
next
  case False
  have "lowWords (filter nonEmpty (split_sp (toLowerCase
          (trim (collapseWs (replaceEach (\<lambda>c. isAlnum c \<or> isSpace c) (trim s)))))))"
    by (rule tokens_low(1)) (rule normalised_chars)
  with False show ?thesis
    by (auto simp: lowerJoin_def)
qed

lemma lowerJoin_join:
  assumes "lowWords ws" and "\<not> isAlnum x" and "\<not> isSpace x"
  shows "lowerJoin x (join [x] ws) = join [x] ws"
proof (cases "ws = []")
  case True
  then show ?thesis by (simp add: lowerJoin_def trim_def)
next
  case False
  have t: "trim (join [x] ws) = join [x] ws"
    using lowWords_no_space [OF assms(1)] by (rule trim_join)
  have "split_sp (join [sp] ws) = ws"
    using False lowWords_no_sp [OF assms(1)] by (rule split_sp_join)
  then show ?thesis
    unfolding lowerJoin_def t
    by (simp add: normalise_join [OF assms] toLowerCase_join_sp [OF assms(1)]
          lowWords_nonEmpty [OF assms(1)])
qed

lemma lowerJoin_idem:
  assumes "\<not> isAlnum x" and "\<not> isSpace x"
  shows "lowerJoin x (lowerJoin x s) = lowerJoin x s"
  using lowerJoin_words [of x s] lowerJoin_join [OF _ assms] by auto

lemma kebabWords_chars:
  "c \<in> set (trim (collapseWs (insertBoundary (replaceEach (\<lambda>c. isAlnum c \<or> isSpace c) s))))
   \<Longrightarrow> isAlnum c \<or> c = sp"
  using set_trim set_collapseWs set_insertBoundary set_replaceEach
  by (metis (no_types, lifting) subsetD)

lemma kebabJoin_words: "\<exists>ws. lowWords ws \<and> kebabJoin s = join [0x2D] ws"
proof (cases "trim s = [] \<or> kebabWords (trim s) = []")
  case True
  then show ?thesis
    using lowWords_Nil by (auto simp: kebabJoin_def)
next
  case False
  have "lowWords (map toLowerCase (kebabWords (trim s)))"
    unfolding kebabWords_def Let_def by (rule tokens_low(2)) (rule kebabWords_chars)
  with False show ?thesis
    by (auto simp: kebabJoin_def)
qed

lemma kebabWords_join:
  assumes "lowWords ws" and "ws \<noteq> []"
  shows "kebabWords (join [0x2D] ws) = ws"
proof -
  have "replaceEach (\<lambda>c. isAlnum c \<or> isSpace c) (join [0x2D] ws) = join [sp] ws"
    using lowWords_kept [OF assms(1)] by (intro replaceEach_join) (simp_all add: separators_folded)
  moreover have "insertBoundary (join [sp] ws) = join [sp] ws"
    using no_upper_join_sp [OF assms(1)] by (rule insertBoundary_id)
  moreover have "split_sp (join [sp] ws) = ws"
    using assms(2) lowWords_no_sp [OF assms(1)] by (rule split_sp_join)
  ultimately show ?thesis
    using lowWords_no_space [OF assms(1)]
    by (simp add: kebabWords_def collapseWs_join trim_join lowWords_nonEmpty [OF assms(1)])
qed

lemma kebabJoin_join:
  assumes "lowWords ws"
  shows "kebabJoin (join [0x2D] ws) = join [0x2D] ws"
proof (cases "ws = []")
  case True
  then show ?thesis by (simp add: kebabJoin_def trim_def)
next
  case False
  have t: "trim (join [0x2D] ws) = join [0x2D] ws"
    using lowWords_no_space [OF assms(1)] by (rule trim_join)
  show ?thesis
    unfolding kebabJoin_def t
    using False by (simp add: kebabWords_join [OF assms False] lowWords_lower [OF assms])
qed

lemma kebabJoin_idem: "kebabJoin (kebabJoin s) = kebabJoin s"
  using kebabJoin_words [of s] kebabJoin_join by auto

lemma toSnakeCase_string: "toSnakeCase (JString s) = Inr (lowerJoin 0x5F s)"
  by (simp add: toSnakeCase_def lowerJoin_def Let_def js_def)

lemma toDotCase_string: "toDotCase (JString s) = Inr (lowerJoin 0x2E s)"
  by (simp add: toDotCase_def lowerJoin_def Let_def js_def)

lemma toKebabCase_string: "toKebabCase (JString s) = Inr (kebabJoin s)"
  by (simp add: toKebabCase_def kebabJoin_def Let_def js_def)

subsection \<open>toCamelCase\<close>

lemma toCamelCase_a_b: "toCamelCase (JString (js ''a b'')) = Inr (js ''aB'')"
  by code_simp

section \<open>Input validation\<close>

text \<open>
  Claim C1. For every value that is not a string (\<open>typeof\<close> is not \<open>'string'\<close>),
  \<open>normalizeString\<close>, \<open>toKebabCase\<close>, \<open>robustCamelCase\<close> and \<open>toDotCase\<close> throw a
  TypeError whose message ends in the runtime type name of the value, or in \<open>null\<close> when
  the value is \<open>null\<close>; for every string they return a result.
\<close>

theorem invalid_input_type:
  "(typeof v \<noteq> js ''string'' \<longrightarrow>
      normalizeString v = Inl (TypeError (js ''Input must be a string, received ''
                                 @ (if v = JNull then js ''null'' else typeof v)))
    \<and> toKebabCase v = Inl (TypeError (js ''Input must be a string, received ''
                                 @ (if v = JNull then js ''null'' else typeof v)))
    \<and> robustCamelCase v = Inl (TypeError (js ''Input must be a string, received ''
                                 @ (if v = JNull then js ''null'' else typeof v)))
    \<and> toDotCase v = Inl (TypeError (js ''Input must be a string, received ''
                                 @ (if v = JNull then js ''null'' else typeof v))))
   \<and> (typeof v = js ''string'' \<longrightarrow>
      (\<exists>ws. normalizeString v = Inr ws) \<and> (\<exists>r. toKebabCase v = Inr r)
    \<and> (\<exists>r. robustCamelCase v = Inr r) \<and> (\<exists>r. toDotCase v = Inr r))"
proof (cases v)
  case (JString s)
  then show ?thesis
    by (simp add: normalizeString_def toKebabCase_def robustCamelCase_def toDotCase_def Let_def)
qed (simp_all add: normalizeString_def toKebabCase_def robustCamelCase_def toDotCase_def
       invalidInput_def received_def js_def)

theorem invalid_input_type_witness:
  "typeof JNumber \<noteq> js ''string''
   \<and> normalizeString JNumber = Inl (TypeError (js ''Input must be a string, received number''))
   \<and> toKebabCase JNumber = Inl (TypeError (js ''Input must be a string, received number''))
   \<and> robustCamelCase JNumber = Inl (TypeError (js ''Input must be a string, received number''))
   \<and> toDotCase JNumber = Inl (TypeError (js ''Input must be a string, received number''))
   \<and> typeof JNull \<noteq> js ''string''
   \<and> normalizeString JNull = Inl (TypeError (js ''Input must be a string, received null''))
   \<and> typeof JUndefined \<noteq> js ''string''
   \<and> normalizeString JUndefined
       = Inl (TypeError (js ''Input must be a string, received undefined''))
   \<and> typeof JObject \<noteq> js ''string''
   \<and> normalizeString JObject = Inl (TypeError (js ''Input must be a string, received object''))
   \<and> typeof (JString (js ''hello world'')) = js ''string''
   \<and> (\<exists>ws. normalizeString (JString (js ''hello world'')) = Inr ws)"
  using invalid_input_type [of JNumber] invalid_input_type [of JNull]
    invalid_input_type [of JUndefined] invalid_input_type [of JObject]
    invalid_input_type [of "JString (js ''hello world'')"]
  by (simp add: js_def)

text \<open>
  Claim C2, as stated, fails: \<open>camelCase\<close> and \<open>toSnakeCase\<close> do not throw on a number
  but return a string that describes the error, as their documentation announces.
\<close>

theorem sentinel_counterexample:
  "camelCase JNumber = Inr (js ''Error: Input must be a string, but received number'')
   \<and> toSnakeCase JNumber = Inr (js ''Error: Input must be a string, but received number'')"
  by (simp add: camelCase_def toSnakeCase_def errorString_def js_def)

text \<open>
  Claim C2, amended. For every value that is not a string, \<open>robustCamelCase\<close>,
  \<open>toKebabCase\<close> and \<open>toDotCase\<close> throw the TypeError of C1; \<open>camelCase\<close> and
  \<open>toSnakeCase\<close> return the string \<open>Error: Input must be a string, but received\<close>
  followed by \<open>typeof\<close> of the value (\<open>object\<close> for \<open>null\<close>). \<open>toCamelCase\<close> has no
  type check: a value without a \<open>toLowerCase\<close> method makes the engine raise its own
  TypeError, and a String object, which is not a string but has the method, is converted
  like the string it wraps (\<open>toCamelCase(new String('a b'))\<close> returns \<open>aB\<close>).
\<close>

theorem non_string_results:
  "typeof v \<noteq> js ''string'' \<Longrightarrow>
     robustCamelCase v = Inl (TypeError (js ''Input must be a string, received ''
                                 @ (if v = JNull then js ''null'' else typeof v)))
   \<and> toKebabCase v = Inl (TypeError (js ''Input must be a string, received ''
                                 @ (if v = JNull then js ''null'' else typeof v)))
   \<and> toDotCase v = Inl (TypeError (js ''Input must be a string, received ''
                                 @ (if v = JNull then js ''null'' else typeof v)))
   \<and> camelCase v = Inr (js ''Error: Input must be a string, but received '' @ typeof v)
   \<and> toSnakeCase v = Inr (js ''Error: Input must be a string, but received '' @ typeof v)
   \<and> (\<not> hasToLowerCase v \<longrightarrow> toCamelCase v = Inl RuntimeTypeError)
   \<and> (\<forall>s. v = JStringObject s \<longrightarrow> toCamelCase v = toCamelCase (JString s))"
  by (cases v)
     (simp_all add: robustCamelCase_def toKebabCase_def toDotCase_def camelCase_def
        toSnakeCase_def toCamelCase_def callToLowerCase_def invalidInput_def received_def
        errorString_def js_def)

theorem non_string_results_witness:
  "typeof JNull \<noteq> js ''string'' \<and> \<not> hasToLowerCase JNull
   \<and> robustCamelCase JNull = Inl (TypeError (js ''Input must be a string, received null''))
   \<and> toKebabCase JNull = Inl (TypeError (js ''Input must be a string, received null''))
   \<and> toDotCase JNull = Inl (TypeError (js ''Input must be a string, received null''))
   \<and> camelCase JNull = Inr (js ''Error: Input must be a string, but received object'')
   \<and> toSnakeCase JNull = Inr (js ''Error: Input must be a string, but received object'')
   \<and> toCamelCase JNull = Inl RuntimeTypeError
   \<and> typeof (JStringObject (js ''a b'')) \<noteq> js ''string''
   \<and> robustCamelCase (JStringObject (js ''a b''))
       = Inl (TypeError (js ''Input must be a string, received object''))
   \<and> camelCase (JStringObject (js ''a b''))
       = Inr (js ''Error: Input must be a string, but received object'')
   \<and> toCamelCase (JStringObject (js ''a b'')) = Inr (js ''aB'')"
  using non_string_results [of JNull] non_string_results [of "JStringObject (js ''a b'')"]
    toCamelCase_a_b
  by (simp add: js_def)

section \<open>Conversions of given strings\<close>

text \<open>
  Claim C3, evaluated on the code. Only \<open>toKebabCase\<close> inserts a boundary between a
  lowercase and an uppercase letter: its words for \<open>firstName\<close> are \<open>first\<close> and
  \<open>Name\<close>. \<open>normalizeString\<close> yields the single token \<open>firstName\<close>, and both
  \<open>toSnakeCase\<close> and \<open>toCamelCase\<close> return \<open>firstname\<close>, where the claim (and the
  examples in the documentation of \<open>toSnakeCase\<close>) expect \<open>first_name\<close> and
  \<open>firstName\<close>.
\<close>

theorem first_name_results:
  "normalizeString (JString (js ''firstName'')) = Inr [js ''firstName'']
   \<and> toSnakeCase (JString (js ''firstName'')) = Inr (js ''firstname'')
   \<and> toCamelCase (JString (js ''firstName'')) = Inr (js ''firstname'')
   \<and> kebabWords (js ''firstName'') = [js ''first'', js ''Name'']
   \<and> toKebabCase (JString (js ''firstName'')) = Inr (js ''first-name'')"
  by code_simp

text \<open>
  Claim C4, evaluated on the code. For \<open>123 test string\<close> the claim, and the example
  in the comment above \<open>robustCamelCase\<close>, expect \<open>123testString\<close>: the numeric
  token as it is, then the remaining words in camel case. \<open>toCamelCase\<close>,
  \<open>robustCamelCase\<close> and \<open>chainCamelCase\<close> count the numeric token as the first
  word and capitalize the word after it: they return \<open>123TestString\<close>.
\<close>

theorem digit_led_results:
  "toCamelCase (JString (js ''123 test string'')) = Inr (js ''123TestString'')
   \<and> robustCamelCase (JString (js ''123 test string'')) = Inr (js ''123TestString'')
   \<and> chainCamelCase (JString (js ''123 test string'')) = Inr (js ''123TestString'')"
  by code_simp

text \<open>
  Claim C5, as stated, fails: a dot is not a separator for \<open>toCamelCase\<close>.
\<close>

theorem separator_counterexample:
  "toCamelCase (JString (js ''user.id'')) \<noteq> Inr (js ''userId'')"
  by code_simp

text \<open>
  Claim C5, amended. \<open>toCamelCase\<close> returns \<open>userId\<close> for \<open>user_id\<close>, \<open>user-id\<close> and
  \<open>user id\<close>; it treats only hyphens, underscores and whitespace as separators and
  returns \<open>user.id\<close> for \<open>user.id\<close>. \<open>robustCamelCase\<close> returns \<open>userId\<close> for all
  four.
\<close>

theorem separator_results:
  "toCamelCase (JString (js ''user_id'')) = Inr (js ''userId'')
   \<and> toCamelCase (JString (js ''user-id'')) = Inr (js ''userId'')
   \<and> toCamelCase (JString (js ''user id'')) = Inr (js ''userId'')
   \<and> toCamelCase (JString (js ''user.id'')) = Inr (js ''user.id'')
   \<and> robustCamelCase (JString (js ''user_id'')) = Inr (js ''userId'')
   \<and> robustCamelCase (JString (js ''user-id'')) = Inr (js ''userId'')
   \<and> robustCamelCase (JString (js ''user.id'')) = Inr (js ''userId'')
   \<and> robustCamelCase (JString (js ''user id'')) = Inr (js ''userId'')"
  by code_simp

text \<open>
  Claim C6. A string without any letter or digit (the empty string, a string of spaces,
  a string of punctuation) is a valid input: \<open>normalizeString\<close> returns the empty token
  sequence for it, and each of the five renderers returns the empty string for the empty
  token sequence. The witness evaluates \<open>""\<close>, \<open>"   "\<close> and \<open>"!!!"\<close>.
\<close>

theorem empty_inputs:
  "(list_all (\<lambda>c. \<not> isAlnum c) s \<longrightarrow> normalizeString (JString s) = Inr [])
   \<and> renderCamel [] = js '''' \<and> renderPascal [] = js '''' \<and> renderSnake [] = js ''''
   \<and> renderKebab [] = js '''' \<and> renderDot [] = js ''''"
  by (simp add: normalizeString_no_alnum renderCamel_def renderPascal_def renderSnake_def
        renderKebab_def renderDot_def js_def)

theorem empty_inputs_witness:
  "list_all (\<lambda>c. \<not> isAlnum c) (js '''') \<and> normalizeString (JString (js '''')) = Inr []
   \<and> list_all (\<lambda>c. \<not> isAlnum c) (js ''   '') \<and> normalizeString (JString (js ''   '')) = Inr []
   \<and> list_all (\<lambda>c. \<not> isAlnum c) (js ''!!!'') \<and> normalizeString (JString (js ''!!!'')) = Inr []"
  using empty_inputs [of "js ''''"] empty_inputs [of "js ''   ''"] empty_inputs [of "js ''!!!''"]
  by (simp add: js_def isAlnum_def isLower_def isUpper_def isDigit_def)

text \<open>
  Claim C7, as stated, fails: \<open>toCamelCase\<close> does not remove punctuation, so it does not
  return \<open>helloWorldTest\<close> for \<open>Hello@World#Test!\<close>.
\<close>

theorem formats_counterexample:
  "toCamelCase (JString (js ''Hello@World#Test!'')) \<noteq> Inr (js ''helloWorldTest'')"
  by code_simp

text \<open>
  Claim C7, amended. For \<open>Hello@World#Test!\<close> the converters that fold punctuation
  return the expected strings: \<open>robustCamelCase\<close>, \<open>camelCase\<close> and \<open>chainCamelCase\<close>
  return \<open>helloWorldTest\<close>, \<open>toSnakeCase\<close> returns \<open>hello_world_test\<close>,
  \<open>chainPascalCase\<close> returns \<open>HelloWorldTest\<close>, \<open>toKebabCase\<close> returns
  \<open>hello-world-test\<close> and \<open>toDotCase\<close> returns \<open>hello.world.test\<close>. \<open>toCamelCase\<close>
  only lowercases the string and returns \<open>hello@world#test!\<close>.
\<close>

theorem formats_results:
  "robustCamelCase (JString (js ''Hello@World#Test!'')) = Inr (js ''helloWorldTest'')
   \<and> camelCase (JString (js ''Hello@World#Test!'')) = Inr (js ''helloWorldTest'')
   \<and> chainCamelCase (JString (js ''Hello@World#Test!'')) = Inr (js ''helloWorldTest'')
   \<and> toSnakeCase (JString (js ''Hello@World#Test!'')) = Inr (js ''hello_world_test'')
   \<and> chainPascalCase (JString (js ''Hello@World#Test!'')) = Inr (js ''HelloWorldTest'')
   \<and> toKebabCase (JString (js ''Hello@World#Test!'')) = Inr (js ''hello-world-test'')
   \<and> toDotCase (JString (js ''Hello@World#Test!'')) = Inr (js ''hello.world.test'')
   \<and> toCamelCase (JString (js ''Hello@World#Test!'')) = Inr (js ''hello@world#test!'')"
  by code_simp

section \<open>Properties for every string\<close>

text \<open>
  Claim C8. For every string, \<open>toSnakeCase\<close>, \<open>toKebabCase\<close> and \<open>toDotCase\<close> return
  a string on which the same converter returns that string again.
\<close>

theorem rendering_idempotent:
  "\<exists>a b c.
     toSnakeCase (JString s) = Inr a \<and> toSnakeCase (JString a) = Inr a
   \<and> toKebabCase (JString s) = Inr b \<and> toKebabCase (JString b) = Inr b
   \<and> toDotCase (JString s) = Inr c \<and> toDotCase (JString c) = Inr c"
  by (simp add: toSnakeCase_string toDotCase_string toKebabCase_string
        lowerJoin_idem kebabJoin_idem separators_folded)

text \<open>
  Claim C9. For every string, \<open>normalizeString\<close> returns tokens none of which is
  empty and all of which consist of ASCII letters and digits only (so no whitespace, no
  separator, no punctuation). The tokens are exactly the maximal runs of letters and
  digits, in their order from left to right, of the input and likewise of the normalized
  input (trimmed, punctuation folded to spaces, whitespace collapsed, trimmed again);
  read one after the other they are the letters and digits of the input.
\<close>

theorem token_sequence_invariant:
  "\<exists>ws. normalizeString (JString s) = Inr ws
        \<and> list_all (\<lambda>w. w \<noteq> [] \<and> list_all isAlnum w) ws
        \<and> concat ws = filter isAlnum s
        \<and> ws = alnumRuns s
        \<and> ws = alnumRuns (trim (collapseWs
                   (replaceEach (\<lambda>c. isAlnum c \<or> isSpace c) (trim s))))"
  using normalizeString_tokens [of s]
  by (auto simp: normalizeString_runs alnumRuns_normalised)

theorem token_sequence_invariant_witness:
  "normalizeString (JString (js ''ab a b'')) = Inr [js ''ab'', js ''a'', js ''b'']
   \<and> normalizeString (JString (js ''  hello, World!!  x1 ''))
       = Inr [js ''hello'', js ''World'', js ''x1'']"
proof -
  from token_sequence_invariant [of "js ''ab a b''"]
  have "normalizeString (JString (js ''ab a b'')) = Inr (alnumRuns (js ''ab a b''))"
    by blast
  moreover from token_sequence_invariant [of "js ''  hello, World!!  x1 ''"]
  have "normalizeString (JString (js ''  hello, World!!  x1 ''))
      = Inr (alnumRuns (js ''  hello, World!!  x1 ''))"
    by blast
  ultimately show ?thesis
    by (simp only: alnumRuns_examples)
qed

text \<open>
  Claim C10. For every string, the string that \<open>camelCase\<close> returns contains no digit:
  its normalization replaces everything outside \<open>[a-zA-Z\s]\<close> by a space.
\<close>

theorem camelCase_drops_digits:
  "\<exists>r. camelCase (JString s) = Inr r \<and> list_all (\<lambda>c. \<not> isDigit c) r"
proof (cases "trim s = []")
  case True
  then show ?thesis by (simp add: camelCase_def)
next
  case False
  define n where "n = trim (collapseWs (replaceEach (\<lambda>c. isLetter c \<or> isSpace c) (trim s)))"
  define r where "r = join [] (filter nonEmpty
        (map (\<lambda>(index :: nat, word).
                if length word = 0 then [] else if index = 0 then word else capitalize word)
             (enumerate 0 (split_sp (toLowerCase n)))))"
  have n: "isLetter d \<or> d = sp" if "d \<in> set n" for d
    using that unfolding n_def by (rule normalised_chars)
  have "isLetter c" if "w \<in> set (split_sp (toLowerCase n))" "c \<in> set w" for w c
    using lowered_words_letters [OF n that] by (simp add: isLetter_def)
  then have "isLetter c" if "c \<in> set r" for c
    using that unfolding r_def by (rule camel_words_letters)
  then have "list_all (\<lambda>c. \<not> isDigit c) r"
    by (auto simp: list_all_iff dest: letter_not_digit)
  moreover have "camelCase (JString s) = Inr r"
    using False by (simp add: camelCase_def Let_def r_def n_def)
  ultimately show ?thesis by blast
qed

end
